theory Spec2Isabelle
  imports Main "HOL-Library.Sublist"
begin

section \<open>The setup script \<^verbatim>\<open>download_model.py\<close>\<close>

text \<open>
  The script downloads an archive into the assets directory, extracts it
  there, renames the extracted model and label files, and removes the
  archive. Its only state is the file system below the assets directory and
  the lines it prints; both are threaded through the model explicitly. What
  the script cannot decide itself is a parameter of the model: the answer of
  the network, what the downloaded bytes hold when they are read as a ZIP
  archive, and the order in which the operating system enumerates a
  directory.
\<close>

subsection \<open>Strings\<close>

type_synonym bytes = string
type_synonym name = string

text \<open>\<^verbatim>\<open>s.endswith(suf)\<close> and \<^verbatim>\<open>sub in s\<close> of Python.\<close>

definition endswith :: "string \<Rightarrow> string \<Rightarrow> bool" where
  "endswith s suf = suffix suf s"

fun contains :: "string \<Rightarrow> string \<Rightarrow> bool" where
  "contains [] sub = (sub = [])"
| "contains (c # s) sub = (prefix sub (c # s) \<or> contains s sub)"

text \<open>
  \<^verbatim>\<open>s.lower()\<close>: the letters A to Z (codes 65 to 90) are mapped to a to z, every
  other byte of the name is kept.
\<close>

definition lower_char :: "char \<Rightarrow> char" where
  "lower_char c =
     (let k = (of_char c :: nat) in if 65 \<le> k \<and> k \<le> 90 then char_of (k + 32) else c)"

definition lower :: "string \<Rightarrow> string" where
  "lower s = map lower_char s"

text \<open>\<^verbatim>\<open>s.split(sep)\<close> for a separator of one character.\<close>

fun split_sep :: "char \<Rightarrow> string \<Rightarrow> string list" where
  "split_sep sep [] = [[]]"
| "split_sep sep (c # cs) =
     (if c = sep then [] # split_sep sep cs
      else (case split_sep sep cs of
              [] \<Rightarrow> [[c]]
            | p # ps \<Rightarrow> (c # p) # ps))"

text \<open>\<^verbatim>\<open>os.path.join(a, b)\<close> on a POSIX system.\<close>

definition path_join :: "string \<Rightarrow> string \<Rightarrow> string" where
  "path_join a b =
     (if prefix ''/'' b then b
      else if a = [] \<or> endswith a ''/'' then a @ b
      else a @ ''/'' @ b)"

subsection \<open>The file system below the assets directory\<close>

text \<open>
  A directory maps the names of its immediate entries to nodes; a node is a
  regular file with its content or a directory. Symbolic links and other
  special files are not part of the model.
\<close>

datatype node = File bytes | Dir "name \<Rightarrow> node option"

type_synonym dir = "name \<Rightarrow> node option"

datatype error =
    URLError
  | BadZipFile
  | FileNotFoundError string
  | FileExistsError string
  | IsADirectoryError string
  | NotADirectoryError string
  | ShutilError string
  | KeyError string
  | RuntimeError
  | NotImplementedError
  | ZlibError

text \<open>
  \<^verbatim>\<open>os.listdir(path)\<close> returns the names of the immediate entries, each once, in
  an order the operating system chooses. The order is the parameter
  \<open>order\<close>: the names are reported as they occur in it. A listing is
  complete when \<open>order\<close> mentions every name of the directory.
\<close>

definition present :: "dir \<Rightarrow> name \<Rightarrow> bool" where
  "present d n = (case d n of None \<Rightarrow> False | Some _ \<Rightarrow> True)"

definition listdir :: "name list \<Rightarrow> dir \<Rightarrow> name list" where
  "listdir order d = filter (present d) (remdups order)"

text \<open>
  \<^verbatim>\<open>shutil.move(src, dst)\<close> for two names of the same directory, on a POSIX
  system. When \<open>dst\<close> is a directory the source is moved into it, unless both
  are the same directory, and a clash inside raises \<^verbatim>\<open>shutil.Error\<close>.
  Otherwise \<^verbatim>\<open>os.rename\<close> replaces \<open>dst\<close>; renaming a directory onto a regular
  file fails, and so does the fall-back copy.
\<close>

definition shutil_move :: "name \<Rightarrow> name \<Rightarrow> dir \<Rightarrow> error + dir" where
  "shutil_move src dst d =
     (case d dst of
        Some (Dir sub) \<Rightarrow>
          (if src = dst then Inr d
           else if present sub src then Inl (ShutilError (path_join dst src))
           else (case d src of
                   None \<Rightarrow> Inl (FileNotFoundError src)
                 | Some s \<Rightarrow> Inr ((d(src := None))(dst \<mapsto> Dir (sub(src \<mapsto> s))))))
      | _ \<Rightarrow>
          (case d src of
             None \<Rightarrow> Inl (FileNotFoundError src)
           | Some (File c) \<Rightarrow> Inr ((d(src := None))(dst \<mapsto> File c))
           | Some (Dir s) \<Rightarrow>
               (case d dst of
                  None \<Rightarrow> Inr ((d(src := None))(dst \<mapsto> Dir s))
                | Some _ \<Rightarrow> Inl (FileExistsError dst))))"

text \<open>\<^verbatim>\<open>os.remove(path)\<close> deletes a regular file and nothing else.\<close>

definition os_remove :: "name \<Rightarrow> dir \<Rightarrow> error + dir" where
  "os_remove n d =
     (case d n of
        None \<Rightarrow> Inl (FileNotFoundError n)
      | Some (Dir _) \<Rightarrow> Inl (IsADirectoryError n)
      | Some (File _) \<Rightarrow> Inr (d(n := None)))"

text \<open>
  \<^verbatim>\<open>urllib.request.urlretrieve(url, filename)\<close>: the answer of the network is
  \<open>None\<close> when the transfer fails and the body otherwise; the body is written
  to \<open>filename\<close>, replacing a regular file of that name.
\<close>

definition urlretrieve :: "bytes option \<Rightarrow> name \<Rightarrow> dir \<Rightarrow> error + dir" where
  "urlretrieve response n d =
     (case response of
        None \<Rightarrow> Inl URLError
      | Some body \<Rightarrow>
          (case d n of
             Some (Dir _) \<Rightarrow> Inl (IsADirectoryError n)
           | _ \<Rightarrow> Inr (d(n \<mapsto> File body))))"

subsection \<open>Archives\<close>

text \<open>
  Opening an archive reads only its central directory: the list of its
  entries in archive order, each with its stored name. The data of an entry
  is read later, when the entry is extracted, and that reading can fail. What
  reading an entry gives is part of the decoded directory:

  \<^item> \<open>Sound data\<close>: the local header is in order and the data decodes to
    \<open>data\<close>, with the checksum of the directory;
  \<^item> \<open>Broken err None\<close>: \<open>err\<close> is raised when the entry is opened, before
    the target file is touched (a bad local header is \<^verbatim>\<open>BadZipFile\<close>, an
    encrypted entry is \<^verbatim>\<open>RuntimeError\<close>, an unknown compression method is
    \<^verbatim>\<open>NotImplementedError\<close>);
  \<^item> \<open>Broken err (Some part)\<close>: the entry is opened, \<open>part\<close> is what was copied
    to the target file when \<open>err\<close> was raised (a wrong checksum is
    \<^verbatim>\<open>BadZipFile\<close>, damaged compressed data is \<^verbatim>\<open>zlib.error\<close>).

  The reader of the central directory is the parameter \<open>unzip\<close>, which answers
  \<open>None\<close> for bytes that hold no central directory (\<^verbatim>\<open>zipfile.BadZipFile\<close> when
  the archive is opened). A member is a name with its data; \<open>sound\<close> makes it
  an entry that reads without error.
\<close>

type_synonym member = "string \<times> bytes"

datatype reading = Sound bytes | Broken error "bytes option"

type_synonym entry = "string \<times> reading"

definition sound :: "member \<Rightarrow> entry" where
  "sound m = (fst m, Sound (snd m))"

definition ZipFile :: "(bytes \<Rightarrow> entry list option) \<Rightarrow> name \<Rightarrow> dir \<Rightarrow> error + entry list" where
  "ZipFile unzip n d =
     (case d n of
        None \<Rightarrow> Inl (FileNotFoundError n)
      | Some (Dir _) \<Rightarrow> Inl (IsADirectoryError n)
      | Some (File b) \<Rightarrow>
          (case unzip b of
             None \<Rightarrow> Inl BadZipFile
           | Some es \<Rightarrow> Inr es))"

text \<open>
  \<^verbatim>\<open>z.namelist()\<close> gives the stored names in archive order, and
  \<^verbatim>\<open>z.getinfo(name)\<close> the entry of a name: the last one of that name in the
  central directory.
\<close>

definition namelist :: "entry list \<Rightarrow> string list" where
  "namelist es = map fst es"

definition getinfo :: "entry list \<Rightarrow> string \<Rightarrow> reading option" where
  "getinfo es fname = map_of (rev es) fname"

text \<open>
  The place of a member below the extraction directory: the stored name is
  split at \<open>/\<close>, and empty components, \<open>.\<close> and \<open>..\<close> are dropped, as
  \<^verbatim>\<open>zipfile\<close> does before it joins the rest to the target path. A member whose
  stored name ends in \<open>/\<close> is a directory.
\<close>

definition member_path :: "string \<Rightarrow> name list" where
  "member_path fname =
     filter (\<lambda>x. x \<noteq> [] \<and> x \<noteq> ''.'' \<and> x \<noteq> ''..'') (split_sep CHR ''/'' fname)"

definition member_is_dir :: "string \<Rightarrow> bool" where
  "member_is_dir fname = endswith fname ''/''"

text \<open>
  Writing one member: missing upper directories are created, a directory
  member is created unless it exists, a file member is written over a regular
  file of its name. A regular file in the place of a directory, or a directory
  in the place of the file, is an error of the operating system.
\<close>

fun write_member :: "name list \<Rightarrow> bool \<Rightarrow> bytes \<Rightarrow> dir \<Rightarrow> error + dir" where
  "write_member [] isdir data d =
     (if isdir then Inr d else Inl (IsADirectoryError []))"
| "write_member [n] isdir data d =
     (case d n of
        None \<Rightarrow> Inr (d(n \<mapsto> (if isdir then Dir Map.empty else File data)))
      | Some (File _) \<Rightarrow>
          (if isdir then Inl (FileExistsError n) else Inr (d(n \<mapsto> File data)))
      | Some (Dir _) \<Rightarrow>
          (if isdir then Inr d else Inl (IsADirectoryError n)))"
| "write_member (n # p # ps) isdir data d =
     (case d n of
        None \<Rightarrow>
          (case write_member (p # ps) isdir data Map.empty of
             Inl e \<Rightarrow> Inl e
           | Inr s \<Rightarrow> Inr (d(n \<mapsto> Dir s)))
      | Some (File _) \<Rightarrow> Inl (NotADirectoryError n)
      | Some (Dir sub) \<Rightarrow>
          (case write_member (p # ps) isdir data sub of
             Inl e \<Rightarrow> Inl e
           | Inr s \<Rightarrow> Inr (d(n \<mapsto> Dir s))))"

text \<open>
  Before an entry is opened, the directories above its place are created
  unless that path exists already (\<^verbatim>\<open>os.path.exists\<close>, \<^verbatim>\<open>os.makedirs\<close>).
\<close>

fun exists_path :: "name list \<Rightarrow> dir \<Rightarrow> bool" where
  "exists_path [] d = True"
| "exists_path (n # ns) d =
     (case d n of
        None \<Rightarrow> False
      | Some (File _) \<Rightarrow> ns = []
      | Some (Dir s) \<Rightarrow> exists_path ns s)"

definition make_upperdirs :: "name list \<Rightarrow> dir \<Rightarrow> error + dir" where
  "make_upperdirs p d =
     (if exists_path (butlast p) d then Inr d else write_member (butlast p) True [] d)"

text \<open>
  The extraction of the entry named \<open>fname\<close>. A directory entry is created
  without any reading. A file entry that reads without error is written. An
  entry that cannot be opened raises its error when the upper directories are
  there; an entry whose data is damaged raises its error when the target file
  has been created and holds what was copied. An error of the operating system
  comes first, since the target is opened before any data is read.
\<close>

definition extract_member :: "entry list \<Rightarrow> string \<Rightarrow> dir \<Rightarrow> (error \<times> dir) + dir" where
  "extract_member es fname d =
     (case getinfo es fname of
        None \<Rightarrow> Inl (KeyError fname, d)
      | Some r \<Rightarrow>
          (if member_is_dir fname then
             (case write_member (member_path fname) True [] d of
                Inl e \<Rightarrow> Inl (e, d)
              | Inr d' \<Rightarrow> Inr d')
           else
             (case r of
                Sound data \<Rightarrow>
                  (case write_member (member_path fname) False data d of
                     Inl e \<Rightarrow> Inl (e, d)
                   | Inr d' \<Rightarrow> Inr d')
              | Broken err None \<Rightarrow>
                  (case make_upperdirs (member_path fname) d of
                     Inl e \<Rightarrow> Inl (e, d)
                   | Inr d' \<Rightarrow> Inl (err, d'))
              | Broken err (Some part) \<Rightarrow>
                  (case write_member (member_path fname) False part d of
                     Inl e \<Rightarrow> Inl (e, d)
                   | Inr d' \<Rightarrow> Inl (err, d')))))"

text \<open>
  \<^verbatim>\<open>z.extractall(path)\<close> extracts the names of \<^verbatim>\<open>z.namelist()\<close> in archive order,
  each through \<^verbatim>\<open>getinfo\<close>. The first error ends the extraction; what was
  written before it stays.
\<close>

fun extractall_loop :: "entry list \<Rightarrow> string list \<Rightarrow> dir \<Rightarrow> (error \<times> dir) + dir" where
  "extractall_loop es [] d = Inr d"
| "extractall_loop es (fname # fnames) d =
     (case extract_member es fname d of
        Inl x \<Rightarrow> Inl x
      | Inr d' \<Rightarrow> extractall_loop es fnames d')"

definition extractall :: "entry list \<Rightarrow> dir \<Rightarrow> (error \<times> dir) + dir" where
  "extractall es d = extractall_loop es (namelist es) d"

subsection \<open>The script\<close>

text \<open>
  The state of a run: the content of the assets directory and the lines
  printed so far. A run ends with the state it reached, or with the error
  that was raised and the state at that moment.
\<close>

record world =
  assets :: dir
  out :: "string list"

type_synonym outcome = "(error \<times> world) + world"

record env =
  script_dir :: string
  response :: "bytes option"
  unzip :: "bytes \<Rightarrow> entry list option"
  order :: "name list"

definition print_line :: "string \<Rightarrow> world \<Rightarrow> world" where
  "print_line s w = w\<lparr>out := out w @ [s]\<rparr>"

definition and_then :: "outcome \<Rightarrow> (world \<Rightarrow> outcome) \<Rightarrow> outcome" where
  "and_then r f = (case r of Inl x \<Rightarrow> Inl x | Inr w \<Rightarrow> f w)"

definition ASSETS_DIR :: "env \<Rightarrow> string" where
  "ASSETS_DIR e =
     path_join (path_join (path_join (path_join (script_dir e) ''app'') ''src'') ''main'') ''assets''"

definition ZIP_NAME :: name where
  "ZIP_NAME = ''model.zip''"

definition MODEL_NAME :: name where
  "MODEL_NAME = ''ssd_mobilenet_v1.tflite''"

definition LABEL_NAME :: name where
  "LABEL_NAME = ''labelmap.txt''"

text \<open>
  \<^verbatim>\<open>os.makedirs(ASSETS_DIR, exist_ok=True)\<close>: the directory is created empty
  when it is missing (\<open>None\<close>) and kept with its content otherwise.
\<close>

definition makedirs :: "dir option \<Rightarrow> dir" where
  "makedirs t = (case t of None \<Rightarrow> Map.empty | Some d \<Rightarrow> d)"

definition download :: "env \<Rightarrow> world \<Rightarrow> outcome" where
  "download e w =
     (let w1 = print_line ''Downloading SSD MobileNet V1 TFLite model...'' w in
      case urlretrieve (response e) ZIP_NAME (assets w1) of
        Inl err \<Rightarrow> Inl (err, w1)
      | Inr d \<Rightarrow> Inr (print_line ''Download complete.'' (w1\<lparr>assets := d\<rparr>)))"

definition extract_files :: "env \<Rightarrow> world \<Rightarrow> outcome" where
  "extract_files e w =
     (let w1 = print_line ''Extracting model files...'' w in
      case ZipFile (unzip e) ZIP_NAME (assets w1) of
        Inl err \<Rightarrow> Inl (err, w1)
      | Inr es \<Rightarrow>
          (case extractall es (assets w1) of
             Inl (err, d) \<Rightarrow> Inl (err, w1\<lparr>assets := d\<rparr>)
           | Inr d \<Rightarrow> Inr (w1\<lparr>assets := d\<rparr>)))"

text \<open>The two naming rules of the loop, in the words of its conditions.\<close>

definition is_model :: "name \<Rightarrow> bool" where
  "is_model f = endswith f ''.tflite''"

definition is_label :: "name \<Rightarrow> bool" where
  "is_label f = (contains (lower f) ''label'' \<and> endswith f ''.txt'')"

text \<open>The body of the loop for one name \<open>f\<close> of the listing.\<close>

definition rename_entry :: "env \<Rightarrow> name \<Rightarrow> world \<Rightarrow> outcome" where
  "rename_entry e f w =
     (if endswith f ''.tflite'' then
        (case shutil_move f MODEL_NAME (assets w) of
           Inl err \<Rightarrow> Inl (err, w)
         | Inr d \<Rightarrow>
             Inr (print_line (''Model saved as: '' @ path_join (ASSETS_DIR e) MODEL_NAME)
                    (w\<lparr>assets := d\<rparr>)))
      else if contains (lower f) ''label'' \<and> endswith f ''.txt'' then
        (case shutil_move f LABEL_NAME (assets w) of
           Inl err \<Rightarrow> Inl (err, w)
         | Inr d \<Rightarrow>
             Inr (print_line (''Labels saved as: '' @ path_join (ASSETS_DIR e) LABEL_NAME)
                    (w\<lparr>assets := d\<rparr>)))
      else Inr w)"

fun rename_loop :: "env \<Rightarrow> name list \<Rightarrow> world \<Rightarrow> outcome" where
  "rename_loop e [] w = Inr w"
| "rename_loop e (f # fs) w =
     (case rename_entry e f w of
        Inl x \<Rightarrow> Inl x
      | Inr w' \<Rightarrow> rename_loop e fs w')"

text \<open>The listing is taken once, before the first entry is renamed.\<close>

definition rename_files :: "env \<Rightarrow> world \<Rightarrow> outcome" where
  "rename_files e w = rename_loop e (listdir (order e) (assets w)) w"

definition DONE :: string where
  "DONE = ''Done! Model and labels are ready in the assets/ folder.''"

definition cleanup :: "world \<Rightarrow> outcome" where
  "cleanup w =
     (case os_remove ZIP_NAME (assets w) of
        Inl err \<Rightarrow> Inl (err, w)
      | Inr d \<Rightarrow> Inr (print_line DONE (w\<lparr>assets := d\<rparr>)))"

definition start :: "dir option \<Rightarrow> world" where
  "start t = \<lparr>assets = makedirs t, out = []\<rparr>"

definition pipeline :: "env \<Rightarrow> dir option \<Rightarrow> outcome" where
  "pipeline e t =
     and_then (and_then (and_then
       (download e (start t))
       (extract_files e)) (rename_files e)) cleanup"

text \<open>The exit status of the interpreter: 1 after an uncaught error, else 0.\<close>

definition exit_status :: "outcome \<Rightarrow> nat" where
  "exit_status r = (case r of Inl _ \<Rightarrow> 1 | Inr _ \<Rightarrow> 0)"

text \<open>The state in which a run ended, with or without an error.\<close>

definition final_world :: "outcome \<Rightarrow> world" where
  "final_world r = (case r of Inl (err, w) \<Rightarrow> w | Inr w \<Rightarrow> w)"

definition final_assets :: "outcome \<Rightarrow> dir" where
  "final_assets r = assets (final_world r)"

definition raised :: "outcome \<Rightarrow> error option" where
  "raised r = (case r of Inl (err, w) \<Rightarrow> Some err | Inr w \<Rightarrow> None)"

subsection \<open>Notions used in the statements\<close>

text \<open>A directory without subdirectories: every entry is a regular file.\<close>

definition files_only :: "dir \<Rightarrow> bool" where
  "files_only d = (\<forall>n s. d n \<noteq> Some (Dir s))"

text \<open>
  The names of a listing that a rule sends to its canonical name from
  elsewhere, in the order of the listing.
\<close>

definition model_matches :: "name list \<Rightarrow> name list" where
  "model_matches fs = filter (\<lambda>f. is_model f \<and> f \<noteq> MODEL_NAME) fs"

definition label_matches :: "name list \<Rightarrow> name list" where
  "label_matches fs = filter (\<lambda>f. is_label f \<and> f \<noteq> LABEL_NAME) fs"

text \<open>
  A member name that is a single path component: not empty, without \<open>/\<close>,
  and neither \<open>.\<close> nor \<open>..\<close>. Such a member is extracted as an immediate
  entry of the directory, under its own name.
\<close>

definition plain_name :: "string \<Rightarrow> bool" where
  "plain_name n = (n \<noteq> [] \<and> CHR ''/'' \<notin> set n \<and> n \<noteq> ''.'' \<and> n \<noteq> ''..'')"

text \<open>
  The directory that the loop leaves when it has run over the listing \<open>fs\<close> of
  a directory \<open>d\<close> of regular files: each canonical name holds what the last
  match from elsewhere held, every other listed match is gone, and the rest is
  as before. That the loop computes this directory is shown below.
\<close>

definition after_loop :: "name list \<Rightarrow> dir \<Rightarrow> dir" where
  "after_loop fs d = (\<lambda>n.
     if n = MODEL_NAME then
       (if model_matches fs = [] then d MODEL_NAME else d (last (model_matches fs)))
     else if n = LABEL_NAME then
       (if label_matches fs = [] then d LABEL_NAME else d (last (label_matches fs)))
     else if n \<in> set fs \<and> (is_model n \<or> is_label n) then None
     else d n)"

text \<open>
  The directory that the extraction of plain members leaves: a name stored in
  the archive holds the data of its last member, the rest is as before.
\<close>

definition extracted :: "member list \<Rightarrow> dir \<Rightarrow> dir" where
  "extracted ms d = (\<lambda>n. case map_of (rev ms) n of Some c \<Rightarrow> Some (File c) | None \<Rightarrow> d n)"



text \<open>The content of the subdirectory \<open>n\<close> of \<open>d\<close>; empty when there is none.\<close>

definition subdir :: "dir \<Rightarrow> name \<Rightarrow> dir" where
  "subdir d n = (case d n of Some (Dir s) \<Rightarrow> s | _ \<Rightarrow> Map.empty)"

subsection \<open>Example inputs\<close>

text \<open>
  The archive of the documented scenario, with the names \<open>detect.tflite\<close>
  and \<open>labelmap.txt\<close>, fetched by a script that lives in \<open>/repo\<close>.
\<close>

definition scenario_members :: "member list" where
  "scenario_members = [(''detect.tflite'', ''M''), (''labelmap.txt'', ''L'')]"

definition scenario_env :: env where
  "scenario_env =
     \<lparr>script_dir = ''/repo'',
      response = Some ''PK-scenario'',
      unzip = (\<lambda>b. if b = ''PK-scenario'' then Some (map sound scenario_members) else None),
      order = [''model.zip'', ''detect.tflite'', ''labelmap.txt'']\<rparr>"

text \<open>The same archive with the model stored one directory down.\<close>

definition nested_members :: "member list" where
  "nested_members = [(''models/detect.tflite'', ''M''), (''labelmap.txt'', ''L'')]"

definition nested_env :: env where
  "nested_env =
     \<lparr>script_dir = ''/repo'',
      response = Some ''PK-nested'',
      unzip = (\<lambda>b. if b = ''PK-nested'' then Some (map sound nested_members) else None),
      order = [''labelmap.txt'', ''model.zip'', ''models'']\<rparr>"

text \<open>A directory with a model file whose name mentions labels, and a note.\<close>

definition mixed_world :: world where
  "mixed_world =
     \<lparr>assets = [''labels.tflite'' \<mapsto> File ''M'', ''labelmap.txt'' \<mapsto> File ''L'',
                 ''readme.md'' \<mapsto> File ''R''],
      out = []\<rparr>"

text \<open>Two model files side by side, listed in the order of their names.\<close>

definition two_models_world :: world where
  "two_models_world =
     \<lparr>assets = [''a.tflite'' \<mapsto> File ''A'', ''b.tflite'' \<mapsto> File ''B''], out = []\<rparr>"

definition two_models_env :: env where
  "two_models_env = scenario_env\<lparr>order := [''a.tflite'', ''b.tflite'']\<rparr>"

text \<open>
  A directory as an earlier run left it, and an archive that holds the labels
  only.
\<close>

definition rerun_world :: dir where
  "rerun_world =
     [''ssd_mobilenet_v1.tflite'' \<mapsto> File ''OLD-M'', ''labelmap.txt'' \<mapsto> File ''OLD-L'']"

definition labels_only_env :: env where
  "labels_only_env =
     \<lparr>script_dir = ''/repo'',
      response = Some ''PK-labels'',
      unzip = (\<lambda>b. if b = ''PK-labels'' then Some (map sound [(''labelmap.txt'', ''L'')]) else None),
      order = [''labelmap.txt'', ''model.zip'', ''ssd_mobilenet_v1.tflite'']\<rparr>"

text \<open>An archive whose model is stored in a directory that is named like a model.\<close>

definition twice_nested_members :: "member list" where
  "twice_nested_members = [(''a.tflite/b.tflite'', ''M''), (''labelmap.txt'', ''L'')]"

definition twice_nested_env :: env where
  "twice_nested_env =
     \<lparr>script_dir = ''/repo'',
      response = Some ''PK-twice'',
      unzip = (\<lambda>b. if b = ''PK-twice'' then Some (map sound twice_nested_members) else None),
      order = [''a.tflite'', ''labelmap.txt'', ''model.zip'', ''ssd_mobilenet_v1.tflite'']\<rparr>"

text \<open>Another order in which the directory of the scenario may be listed.\<close>

definition second_order :: "name list" where
  "second_order =
     [''ssd_mobilenet_v1.tflite'', ''model.zip'', ''labelmap.txt'', ''detect.tflite'']"

text \<open>An archive with neither a model nor labels, and a download that is no archive.\<close>

definition readme_env :: env where
  "readme_env =
     \<lparr>script_dir = ''/repo'',
      response = Some ''PK-readme'',
      unzip = (\<lambda>b. if b = ''PK-readme'' then Some (map sound [(''README.md'', ''R'')]) else None),
      order = [''README.md'', ''model.zip'']\<rparr>"



section \<open>Properties\<close>

subsection \<open>Names and rules\<close>

lemmas name_defs = ZIP_NAME_def MODEL_NAME_def LABEL_NAME_def

lemmas str_defs = endswith_def suffix_to_prefix lower_def lower_char_def char_of_def bit_0
  is_model_def is_label_def

lemmas run_defs = pipeline_def and_then_def download_def extract_files_def rename_files_def
  cleanup_def makedirs_def print_line_def urlretrieve_def ZipFile_def member_path_def
  member_is_dir_def listdir_def present_def rename_entry_def shutil_move_def os_remove_def
  ASSETS_DIR_def path_join_def DONE_def exit_status_def final_world_def final_assets_def
  start_def sound_def namelist_def getinfo_def extract_member_def extractall_def
  make_upperdirs_def raised_def

lemma model_name_is_model: "is_model MODEL_NAME"
  by (simp add: name_defs str_defs)

lemma label_name_is_label: "is_label LABEL_NAME"
  by (simp add: name_defs str_defs)

lemma zip_name_no_match: "\<not> is_model ZIP_NAME \<and> \<not> is_label ZIP_NAME"
  by (simp add: name_defs str_defs)

text \<open>No name ends both in \<open>.tflite\<close> and in \<open>.txt\<close>, so the rules exclude each other.\<close>

lemma model_not_label: "is_model f \<Longrightarrow> \<not> is_label f"
proof
  assume "is_model f" and "is_label f"
  then have "suffix ''.tflite'' f" and "suffix ''.txt'' f"
    by (simp_all add: is_model_def is_label_def endswith_def)
  then have "suffix ''.tflite'' ''.txt'' \<or> suffix ''.txt'' ''.tflite''"
    using suffix_same_cases by blast
  then show False
    by (simp add: suffix_to_prefix)
qed

subsection \<open>What a move leaves alone\<close>

lemma shutil_move_frame:
  "shutil_move src dst d = Inr d' \<Longrightarrow> n \<noteq> src \<Longrightarrow> n \<noteq> dst \<Longrightarrow> d' n = d n"
  by (auto simp: shutil_move_def split: option.splits node.splits if_splits)

lemma rename_entry_frame:
  assumes "\<not> is_model n" and "\<not> is_label n"
  shows "final_assets (rename_entry e f w) n = assets w n"
proof -
  have "n \<noteq> MODEL_NAME" and "n \<noteq> LABEL_NAME"
    using assms model_name_is_model label_name_is_label by auto
  moreover have "is_model f \<or> is_label f \<Longrightarrow> n \<noteq> f"
    using assms by auto
  ultimately show ?thesis
    by (auto simp: rename_entry_def final_assets_def final_world_def print_line_def
          is_model_def is_label_def
        split: sum.splits dest: shutil_move_frame)
qed

lemma rename_loop_frame:
  assumes "\<not> is_model n" and "\<not> is_label n"
  shows "final_assets (rename_loop e fs w) n = assets w n"
proof (induction fs arbitrary: w)
  case Nil
  show ?case
    by (simp add: final_assets_def final_world_def)
next
  case (Cons f fs)
  show ?case
  proof (cases "rename_entry e f w")
    case (Inl x)
    then show ?thesis
      using rename_entry_frame [OF assms, of e f w]
      by (simp add: final_assets_def final_world_def)
  next
    case (Inr w')
    then have "assets w' n = assets w n"
      using rename_entry_frame [OF assms, of e f w]
      by (simp add: final_assets_def final_world_def)
    then show ?thesis
      using Inr Cons.IH [of w'] by simp
  qed
qed

text \<open>
  Claim C9. The renaming step leaves every entry that matches neither rule as
  it was: whatever the listing \<open>fs\<close> and whatever the directory holds, and
  whether the loop ends normally or with an error, a name \<open>n\<close> that neither
  ends in \<open>.tflite\<close> nor is a label name denotes the same node (the same
  content, or the same absence) in the final directory as before the loop.
\<close>

theorem rename_leaves_unmatched_entries:
  assumes "\<not> is_model n" and "\<not> is_label n"
  shows "final_assets (rename_loop e fs w) n = assets w n
         \<and> final_assets (rename_files e w) n = assets w n"
  using rename_loop_frame [OF assms] by (simp add: rename_files_def)

theorem rename_leaves_unmatched_entries_witness:
  "\<not> is_model ''readme.md'' \<and> \<not> is_label ''readme.md''
   \<and> final_assets (rename_loop scenario_env [''readme.md'', ''labels.tflite'', ''labelmap.txt'']
        mixed_world) ''readme.md'' = Some (File ''R'')"
proof -
  have m: "\<not> is_model ''readme.md''" and l: "\<not> is_label ''readme.md''"
    by (simp_all add: str_defs)
  have "assets mixed_world ''readme.md'' = Some (File ''R'')"
    by (simp add: mixed_world_def)
  with rename_leaves_unmatched_entries [OF m l, of scenario_env
      "[''readme.md'', ''labels.tflite'', ''labelmap.txt'']" mixed_world] m l
  show ?thesis by simp
qed

text \<open>
  Claim C10. The model rule is tested first. For a name \<open>f\<close> that ends in
  \<open>.tflite\<close> the loop body is the move to the canonical model name and nothing
  else: it fails exactly when that move fails, and then changes nothing;
  otherwise it prints the model line, and the entry \<open>labelmap.txt\<close> is the
  same as before, also when \<open>f\<close> contains \<open>label\<close>. Such a name never satisfies
  the label rule.
\<close>

theorem tflite_name_is_model_never_label:
  assumes "endswith f ''.tflite''"
  shows "\<not> is_label f
         \<and> (case rename_entry e f w of
              Inl (err, w') \<Rightarrow> shutil_move f MODEL_NAME (assets w) = Inl err \<and> w' = w
            | Inr w' \<Rightarrow>
                shutil_move f MODEL_NAME (assets w) = Inr (assets w')
                \<and> out w' = out w @ [''Model saved as: '' @ path_join (ASSETS_DIR e) MODEL_NAME]
                \<and> assets w' LABEL_NAME = assets w LABEL_NAME)"
proof -
  have m: "is_model f"
    using assms by (simp add: is_model_def)
  then have "\<not> is_label f"
    by (rule model_not_label)
  moreover from this have "f \<noteq> LABEL_NAME"
    using label_name_is_label by auto
  moreover have "MODEL_NAME \<noteq> LABEL_NAME"
    by (simp add: name_defs)
  ultimately show ?thesis
    using assms
    by (auto simp: rename_entry_def print_line_def split: sum.splits
          dest: shutil_move_frame [where n = LABEL_NAME])
qed

theorem tflite_name_is_model_never_label_witness:
  "endswith ''labels.tflite'' ''.tflite'' \<and> contains (lower ''labels.tflite'') ''label''
   \<and> \<not> is_label ''labels.tflite''
   \<and> final_assets (rename_entry scenario_env ''labels.tflite'' mixed_world) MODEL_NAME
       = Some (File ''M'')
   \<and> final_assets (rename_entry scenario_env ''labels.tflite'' mixed_world) LABEL_NAME
       = Some (File ''L'')"
proof -
  have h: "endswith ''labels.tflite'' ''.tflite''"
    by (simp add: str_defs)
  have c: "contains (lower ''labels.tflite'') ''label''"
    by (simp add: str_defs)
  have r: "rename_entry scenario_env ''labels.tflite'' mixed_world
           = Inr \<lparr>assets = (assets mixed_world)(''labels.tflite'' := None,
                              MODEL_NAME \<mapsto> File ''M''),
                  out = [''Model saved as: /repo/app/src/main/assets/ssd_mobilenet_v1.tflite'']\<rparr>"
    by (simp add: run_defs str_defs name_defs mixed_world_def scenario_env_def)
  from tflite_name_is_model_never_label [OF h, where e = scenario_env and w = mixed_world] h c
  show ?thesis
    unfolding final_assets_def final_world_def r
    by (simp add: mixed_world_def name_defs)
qed

subsection \<open>Cleanup\<close>

text \<open>
  Claim C7. The deletion of the archive is unguarded: when \<open>model.zip\<close> is
  missing at cleanup time, the step raises \<^verbatim>\<open>FileNotFoundError\<close>, the state is
  left as it was (the completion line is not printed), and a run that ends
  in this step ends with exit status 1.
\<close>

theorem cleanup_fails_when_archive_missing:
  assumes "assets w ZIP_NAME = None"
  shows "cleanup w = Inl (FileNotFoundError ZIP_NAME, w)
         \<and> exit_status (and_then (Inr w) cleanup) = 1"
  using assms by (simp add: cleanup_def os_remove_def and_then_def exit_status_def)

theorem cleanup_fails_when_archive_missing_witness:
  "assets mixed_world ZIP_NAME = None
   \<and> cleanup mixed_world = Inl (FileNotFoundError ''model.zip'', mixed_world)
   \<and> exit_status (and_then (Inr mixed_world) cleanup) = 1"
proof -
  have h: "assets mixed_world ZIP_NAME = None"
    by (simp add: mixed_world_def name_defs)
  from cleanup_fails_when_archive_missing [OF h] h show ?thesis
    by (simp add: name_defs)
qed

subsection \<open>The loop on a directory of regular files\<close>

lemma files_only_present:
  "files_only d \<Longrightarrow> present d f \<Longrightarrow> \<exists>c. d f = Some (File c)"
  by (cases "d f"; simp add: files_only_def present_def) (metis node.exhaust)

lemma rename_entry_file:
  assumes fo: "files_only (assets w)" and pf: "assets w f = Some (File c)"
  shows "\<exists>w'. rename_entry e f w = Inr w' \<and>
           assets w' = (if is_model f then (assets w)(f := None, MODEL_NAME \<mapsto> File c)
                        else if is_label f then (assets w)(f := None, LABEL_NAME \<mapsto> File c)
                        else assets w)"
proof -
  have m: "shutil_move f dst (assets w) = Inr ((assets w)(f := None, dst \<mapsto> File c))" for dst
    using fo pf by (auto simp: shutil_move_def files_only_def split: option.splits node.splits)
  show ?thesis
    by (simp add: rename_entry_def m print_line_def is_model_def is_label_def)
qed

lemma after_loop_Nil: "after_loop [] d = d"
  by (auto simp: after_loop_def model_matches_def label_matches_def)

lemma after_loop_model:
  assumes "is_model f" "f \<notin> set fs" "d f = Some (File c)"
  shows "after_loop fs (d(f := None, MODEL_NAME \<mapsto> File c)) = after_loop (f # fs) d"
proof
  fix n
  have nl: "\<not> is_label f" using assms(1) by (rule model_not_label)
  have a: "f \<noteq> LABEL_NAME" using nl label_name_is_label by auto
  have b: "MODEL_NAME \<noteq> LABEL_NAME" by (simp add: name_defs)
  have lm: "label_matches (f # fs) = label_matches fs"
    using nl by (simp add: label_matches_def)
  have mm: "model_matches (f # fs) = (if f = MODEL_NAME then model_matches fs else f # model_matches fs)"
    using assms(1) by (simp add: model_matches_def)
  have lastm: "model_matches fs \<noteq> [] \<Longrightarrow> last (model_matches fs) \<noteq> f \<and> last (model_matches fs) \<noteq> MODEL_NAME"
    using last_in_set[of "model_matches fs"] assms(2) by (auto simp: model_matches_def)
  have lastl: "label_matches fs \<noteq> [] \<Longrightarrow> last (label_matches fs) \<noteq> f \<and> last (label_matches fs) \<noteq> MODEL_NAME"
    using last_in_set[of "label_matches fs"] assms(2) model_name_is_model model_not_label
    by (auto simp: label_matches_def)
  show "after_loop fs (d(f := None, MODEL_NAME \<mapsto> File c)) n = after_loop (f # fs) d n"
    using a b lm mm lastm lastl assms
    by (auto simp: after_loop_def)
qed

lemma after_loop_label:
  assumes "is_label f" "f \<notin> set fs" "d f = Some (File c)"
  shows "after_loop fs (d(f := None, LABEL_NAME \<mapsto> File c)) = after_loop (f # fs) d"
proof
  fix n
  have nl: "\<not> is_model f" using assms(1) model_not_label by auto
  have a: "f \<noteq> MODEL_NAME" using nl model_name_is_model by auto
  have b: "MODEL_NAME \<noteq> LABEL_NAME" by (simp add: name_defs)
  have lm: "model_matches (f # fs) = model_matches fs"
    using nl by (simp add: model_matches_def)
  have mm: "label_matches (f # fs) = (if f = LABEL_NAME then label_matches fs else f # label_matches fs)"
    using assms(1) by (simp add: label_matches_def)
  have lastm: "label_matches fs \<noteq> [] \<Longrightarrow> last (label_matches fs) \<noteq> f \<and> last (label_matches fs) \<noteq> LABEL_NAME"
    using last_in_set[of "label_matches fs"] assms(2) by (auto simp: label_matches_def)
  have lastl: "model_matches fs \<noteq> [] \<Longrightarrow> last (model_matches fs) \<noteq> f \<and> last (model_matches fs) \<noteq> LABEL_NAME"
    using last_in_set[of "model_matches fs"] assms(2) label_name_is_label model_not_label
    by (auto simp: model_matches_def)
  show "after_loop fs (d(f := None, LABEL_NAME \<mapsto> File c)) n = after_loop (f # fs) d n"
    using a b lm mm lastm lastl assms
    by (auto simp: after_loop_def)
qed

lemma after_loop_other:
  assumes "\<not> is_model f" "\<not> is_label f"
  shows "after_loop fs d = after_loop (f # fs) d"
  using assms by (auto simp: after_loop_def model_matches_def label_matches_def)

lemma rename_loop_files:
  assumes "files_only (assets w)" "distinct fs" "\<forall>f\<in>set fs. present (assets w) f"
  shows "\<exists>w'. rename_loop e fs w = Inr w' \<and> assets w' = after_loop fs (assets w)"
  using assms
proof (induction fs arbitrary: w)
  case Nil
  show ?case by (simp add: after_loop_Nil)
next
  case (Cons f fs)
  from Cons.prems obtain c where c: "assets w f = Some (File c)"
    using files_only_present by fastforce
  from rename_entry_file[OF Cons.prems(1) c, of e]
  obtain w1 where w1: "rename_entry e f w = Inr w1"
    and a1: "assets w1 = (if is_model f then (assets w)(f := None, MODEL_NAME \<mapsto> File c)
                        else if is_label f then (assets w)(f := None, LABEL_NAME \<mapsto> File c)
                        else assets w)"
    by blast
  have fo1: "files_only (assets w1)"
    using Cons.prems(1) by (auto simp: a1 files_only_def)
  have nf: "f \<notin> set fs" and dfs: "distinct fs" using Cons.prems(2) by auto
  have pr1: "\<forall>g\<in>set fs. present (assets w1) g"
    using Cons.prems(3) nf by (auto simp: a1 present_def)
  from Cons.IH[OF fo1 dfs pr1] obtain w' where
    w': "rename_loop e fs w1 = Inr w'" "assets w' = after_loop fs (assets w1)" by blast
  have "after_loop fs (assets w1) = after_loop (f # fs) (assets w)"
    using after_loop_model[of f fs "assets w" c] after_loop_label[of f fs "assets w" c]
      after_loop_other[of f fs "assets w"] nf c
    by (auto simp: a1)
  then show ?case using w1 w' by simp
qed

lemma listdir_distinct: "distinct (listdir ns d)"
  by (simp add: listdir_def)

lemma listdir_present: "f \<in> set (listdir ns d) \<longleftrightarrow> f \<in> set ns \<and> present d f"
  by (auto simp: listdir_def)

lemma rename_files_files:
  assumes "files_only (assets w)"
  shows "\<exists>w'. rename_files e w = Inr w' \<and>
               assets w' = after_loop (listdir (order e) (assets w)) (assets w)"
  unfolding rename_files_def
  by (rule rename_loop_files [OF assms listdir_distinct]) (simp add: listdir_present)


subsection \<open>Extraction of plain members\<close>

lemma split_sep_plain: "sep \<notin> set n \<Longrightarrow> split_sep sep n = [n]"
  by (induction n) auto

lemma plain_member:
  assumes "plain_name n"
  shows "member_path n = [n]" and "\<not> member_is_dir n"
proof -
  show "member_path n = [n]"
    using assms by (simp add: member_path_def plain_name_def split_sep_plain)
  show "\<not> member_is_dir n"
  proof
    assume "member_is_dir n"
    then obtain xs where "n = xs @ ''/''"
      by (auto simp: member_is_dir_def endswith_def suffix_def)
    then show False using assms by (simp add: plain_name_def)
  qed
qed

lemma getinfo_sound: "getinfo (map sound ms) n = map_option Sound (map_of (rev ms) n)"
proof -
  have "map_of (map sound xs) n = map_option Sound (map_of xs n)" for xs
    by (induction xs) (auto simp: sound_def)
  then show ?thesis
    by (simp add: getinfo_def rev_map)
qed

lemma extract_member_sound:
  assumes "files_only d" "plain_name n" "getinfo es n = Some (Sound c)"
  shows "extract_member es n d = Inr (d(n \<mapsto> File c))"
proof -
  have w: "write_member [n] False c d = Inr (d(n \<mapsto> File c))"
    using assms(1) by (cases "d n") (auto simp: files_only_def split: node.splits)
  have mi: "member_is_dir n = False"
    using plain_member(2) [OF assms(2)] by simp
  have "extract_member es n d =
          (case write_member [n] False c d of Inl e \<Rightarrow> Inl (e, d) | Inr d' \<Rightarrow> Inr d')"
    by (simp only: extract_member_def assms(3) plain_member(1) [OF assms(2)] mi
          option.case reading.case if_False)
  also have "\<dots> = Inr (d(n \<mapsto> File c))"
    by (simp only: w sum.case)
  finally show ?thesis .
qed

lemma extractall_loop_plain:
  assumes "files_only d" "\<forall>n\<in>set ns. plain_name n \<and> (\<exists>c. map_of (rev ms) n = Some c)"
  shows "extractall_loop (map sound ms) ns d =
           Inr (\<lambda>x. if x \<in> set ns then map_option File (map_of (rev ms) x) else d x)"
  using assms
proof (induction ns arbitrary: d)
  case Nil
  show ?case by simp
next
  case (Cons n ns)
  from Cons.prems(2) obtain c where pn: "plain_name n" and c: "map_of (rev ms) n = Some c"
    by auto
  have g: "getinfo (map sound ms) n = Some (Sound c)"
    by (simp add: getinfo_sound c)
  have em: "extract_member (map sound ms) n d = Inr (d(n \<mapsto> File c))"
    by (rule extract_member_sound [OF Cons.prems(1) pn g])
  have fo: "files_only (d(n \<mapsto> File c))"
    using Cons.prems(1) by (simp add: files_only_def)
  have ps: "\<forall>n\<in>set ns. plain_name n \<and> (\<exists>c. map_of (rev ms) n = Some c)"
    using Cons.prems(2) by simp
  have "extractall_loop (map sound ms) (n # ns) d =
          extractall_loop (map sound ms) ns (d(n \<mapsto> File c))"
    by (simp only: extractall_loop.simps em sum.case)
  also have "\<dots> = Inr (\<lambda>x. if x \<in> set ns then map_option File (map_of (rev ms) x)
                             else (d(n \<mapsto> File c)) x)"
    by (rule Cons.IH [OF fo ps])
  also have "(\<lambda>x. if x \<in> set ns then map_option File (map_of (rev ms) x)
                   else (d(n \<mapsto> File c)) x) =
             (\<lambda>x. if x \<in> set (n # ns) then map_option File (map_of (rev ms) x) else d x)"
    by (rule ext) (simp add: c)
  finally show ?case .
qed

lemma extractall_plain:
  assumes "files_only d" "\<forall>(n, c)\<in>set ms. plain_name n"
  shows "extractall (map sound ms) d = Inr (extracted ms d)"
proof -
  have ns: "\<forall>n\<in>set (map fst ms). plain_name n \<and> (\<exists>c. map_of (rev ms) n = Some c)"
  proof
    fix n assume n: "n \<in> set (map fst ms)"
    then have "plain_name n" using assms(2) by auto
    moreover have "map_of (rev ms) n \<noteq> None"
      using n by (simp add: map_of_eq_None_iff)
    ultimately show "plain_name n \<and> (\<exists>c. map_of (rev ms) n = Some c)" by auto
  qed
  have nl: "namelist (map sound ms) = map fst ms"
    by (simp add: namelist_def sound_def comp_def)
  have e: "(\<lambda>x. if x \<in> set (map fst ms) then map_option File (map_of (rev ms) x) else d x) =
           extracted ms d"
  proof (rule ext)
    fix x
    show "(if x \<in> set (map fst ms) then map_option File (map_of (rev ms) x) else d x) =
          extracted ms d x"
    proof (cases "map_of (rev ms) x")
      case None
      then have "x \<notin> set (map fst ms)" by (simp add: map_of_eq_None_iff)
      then show ?thesis using None by (simp add: extracted_def)
    next
      case (Some c)
      then have "x \<in> fst ` set (rev ms)" by (metis map_of_eq_None_iff option.distinct(1))
      then have "x \<in> set (map fst ms)" by simp
      then show ?thesis using Some by (simp add: extracted_def)
    qed
  qed
  have "extractall (map sound ms) d = extractall_loop (map sound ms) (map fst ms) d"
    by (simp only: extractall_def nl)
  also have "\<dots> = Inr (\<lambda>x. if x \<in> set (map fst ms) then map_option File (map_of (rev ms) x)
                             else d x)"
    by (rule extractall_loop_plain [OF assms(1) ns])
  finally show ?thesis
    by (simp only: e)
qed

lemma files_only_extracted: "files_only d \<Longrightarrow> files_only (extracted ms d)"
  by (auto simp: files_only_def extracted_def split: option.splits)

subsection \<open>Several matches\<close>

text \<open>
  Claim C2, as the code has it. The listing is taken once. On a directory of
  regular files the loop does not fail, and it has no \<^verbatim>\<open>break\<close>: every listed
  name that matches a rule is moved to the canonical name of the rule, one
  after the other. So the canonical name ends with the content of the last
  listed match that is not the canonical name itself (and keeps its content
  when there is none), and every such match is gone from its old name.
\<close>

theorem last_match_wins:
  assumes "files_only (assets w)"
  shows "\<exists>w'. rename_files e w = Inr w'
           \<and> assets w' MODEL_NAME =
               (if model_matches (listdir (order e) (assets w)) = [] then assets w MODEL_NAME
                else assets w (last (model_matches (listdir (order e) (assets w)))))
           \<and> assets w' LABEL_NAME =
               (if label_matches (listdir (order e) (assets w)) = [] then assets w LABEL_NAME
                else assets w (last (label_matches (listdir (order e) (assets w)))))
           \<and> (\<forall>f \<in> set (model_matches (listdir (order e) (assets w)))
                    \<union> set (label_matches (listdir (order e) (assets w))).
                 assets w' f = None)"
proof -
  from rename_files_files [OF assms, of e] obtain w' where
    r: "rename_files e w = Inr w'"
    and a: "assets w' = after_loop (listdir (order e) (assets w)) (assets w)"
    by blast
  have ml: "MODEL_NAME \<noteq> LABEL_NAME" by (simp add: name_defs)
  have "\<forall>f \<in> set (model_matches (listdir (order e) (assets w)))
                    \<union> set (label_matches (listdir (order e) (assets w))).
                 assets w' f = None"
    using model_not_label label_name_is_label model_name_is_model
    by (auto simp: a after_loop_def model_matches_def label_matches_def)
  then show ?thesis
    using r ml by (auto simp: a after_loop_def)
qed


text \<open>
  The claim as written fails: with \<open>a.tflite\<close> listed before \<open>b.tflite\<close>, the
  canonical model file ends with the content of \<open>b.tflite\<close>, not of the first
  match.
\<close>

theorem first_match_wins_counterexample:
  "listdir (order two_models_env) (assets two_models_world) = [''a.tflite'', ''b.tflite'']
   \<and> assets two_models_world ''a.tflite'' = Some (File ''A'')
   \<and> exit_status (rename_files two_models_env two_models_world) = 0
   \<and> final_assets (rename_files two_models_env two_models_world) MODEL_NAME = Some (File ''B'')"
  by (simp add: two_models_env_def two_models_world_def scenario_env_def
        run_defs str_defs name_defs)

theorem last_match_wins_witness:
  "files_only (assets two_models_world)
   \<and> model_matches (listdir (order two_models_env) (assets two_models_world))
       = [''a.tflite'', ''b.tflite'']
   \<and> final_assets (rename_files two_models_env two_models_world) MODEL_NAME = Some (File ''B'')
   \<and> final_assets (rename_files two_models_env two_models_world) ''a.tflite'' = None"
proof -
  have h: "files_only (assets two_models_world)"
    by (simp add: files_only_def two_models_world_def)
  have l: "model_matches (listdir (order two_models_env) (assets two_models_world))
       = [''a.tflite'', ''b.tflite'']"
    by (simp add: two_models_env_def two_models_world_def scenario_env_def model_matches_def
          listdir_def present_def str_defs name_defs)
  from last_match_wins [OF h, of two_models_env] obtain w' where
    "rename_files two_models_env two_models_world = Inr w'"
    "assets w' MODEL_NAME = assets two_models_world ''b.tflite''"
    "assets w' ''a.tflite'' = None"
    unfolding l by auto
  then show ?thesis using h l
    by (simp add: final_assets_def final_world_def two_models_world_def)
qed

subsection \<open>A whole run on plain members\<close>

lemma download_ok:
  assumes "response e = Some body" "files_only (assets w)"
  shows "download e w = Inr \<lparr>assets = (assets w)(ZIP_NAME \<mapsto> File body),
           out = out w @ [''Downloading SSD MobileNet V1 TFLite model...'', ''Download complete.'']\<rparr>"
  using assms
  by (cases "assets w ZIP_NAME")
     (auto simp: download_def urlretrieve_def print_line_def files_only_def Let_def
        split: node.splits)

lemma extract_files_plain:
  assumes "assets w ZIP_NAME = Some (File body)" "unzip e body = Some (map sound ms)"
    "\<forall>(n, c)\<in>set ms. plain_name n" "files_only (assets w)"
  shows "extract_files e w = Inr \<lparr>assets = extracted ms (assets w),
           out = out w @ [''Extracting model files...'']\<rparr>"
  using assms(1,2) extractall_plain [OF assms(4,3)]
  by (simp add: extract_files_def ZipFile_def print_line_def)

lemma after_loop_zip: "after_loop fs d ZIP_NAME = d ZIP_NAME"
  using zip_name_no_match by (simp add: after_loop_def name_defs)

lemma extracted_zip_file:
  "d ZIP_NAME = Some (File body) \<Longrightarrow> \<exists>c. extracted ms d ZIP_NAME = Some (File c)"
  by (simp add: extracted_def split: option.splits)

lemma cleanup_ok:
  assumes "assets w ZIP_NAME = Some (File c)"
  shows "cleanup w = Inr \<lparr>assets = (assets w)(ZIP_NAME := None), out = out w @ [DONE]\<rparr>"
  using assms by (simp add: cleanup_def os_remove_def print_line_def)

lemma pipeline_plain:
  assumes r: "response e = Some body" and u: "unzip e body = Some (map sound ms)"
    and pl: "\<forall>(n, c)\<in>set ms. plain_name n" and fo: "files_only (makedirs t)"
  defines "d1 \<equiv> extracted ms ((makedirs t)(ZIP_NAME \<mapsto> File body))"
  shows "\<exists>w. pipeline e t = Inr w
            \<and> assets w = (after_loop (listdir (order e) d1) d1)(ZIP_NAME := None)
            \<and> last (out w) = DONE"
proof -
  let ?d0 = "(makedirs t)(ZIP_NAME \<mapsto> File body)"
  let ?w1 = "\<lparr>assets = ?d0,
           out = [''Downloading SSD MobileNet V1 TFLite model...'', ''Download complete.'']\<rparr>"
  let ?w2 = "\<lparr>assets = d1,
           out = [''Downloading SSD MobileNet V1 TFLite model...'', ''Download complete.'',
                  ''Extracting model files...'']\<rparr>"
  have s1: "download e (start t) = Inr ?w1"
    using download_ok [OF r, of "start t"] fo by (simp add: start_def)
  have fo0: "files_only ?d0"
    using fo by (simp add: files_only_def)
  have s2: "extract_files e ?w1 = Inr ?w2"
    using extract_files_plain [of ?w1 body e ms] u pl fo0 by (simp add: d1_def)
  have fo1: "files_only (assets ?w2)"
    using files_only_extracted [OF fo0] by (simp add: d1_def)
  from rename_files_files [OF fo1, of e] obtain w3 where
    s3: "rename_files e ?w2 = Inr w3"
    and a3: "assets w3 = after_loop (listdir (order e) d1) d1"
    by auto
  obtain c where "assets w3 ZIP_NAME = Some (File c)"
    using extracted_zip_file [of ?d0 body ms] by (auto simp: a3 after_loop_zip d1_def)
  from cleanup_ok [OF this] have s4:
    "cleanup w3 = Inr \<lparr>assets = (assets w3)(ZIP_NAME := None), out = out w3 @ [DONE]\<rparr>" .
  show ?thesis
    by (simp add: pipeline_def and_then_def s1 s2 s3 s4 a3)
qed

lemma after_loop_model_value:
  assumes "\<forall>n\<in>set fs. is_model n \<longrightarrow> d n = X"
    and "d MODEL_NAME = X \<or> (\<exists>n\<in>set fs. is_model n \<and> n \<noteq> MODEL_NAME)"
  shows "after_loop fs d MODEL_NAME = X"
proof (cases "model_matches fs = []")
  case True
  then have "\<not> (\<exists>n\<in>set fs. is_model n \<and> n \<noteq> MODEL_NAME)"
    by (auto simp: model_matches_def filter_empty_conv)
  with assms(2) True show ?thesis
    by (simp add: after_loop_def)
next
  case False
  then have "last (model_matches fs) \<in> set (model_matches fs)"
    by (rule last_in_set)
  then have "d (last (model_matches fs)) = X"
    using assms(1) by (auto simp: model_matches_def)
  with False show ?thesis
    by (simp add: after_loop_def)
qed

lemma after_loop_label_value:
  assumes "\<forall>n\<in>set fs. is_label n \<longrightarrow> d n = X"
    and "d LABEL_NAME = X \<or> (\<exists>n\<in>set fs. is_label n \<and> n \<noteq> LABEL_NAME)"
  shows "after_loop fs d LABEL_NAME = X"
proof (cases "label_matches fs = []")
  case True
  have ml: "LABEL_NAME \<noteq> MODEL_NAME"
    by (simp add: name_defs)
  from True have "\<not> (\<exists>n\<in>set fs. is_label n \<and> n \<noteq> LABEL_NAME)"
    by (auto simp: label_matches_def filter_empty_conv)
  with assms(2) True show ?thesis
    by (simp add: after_loop_def ml)
next
  case False
  then have "last (label_matches fs) \<in> set (label_matches fs)"
    by (rule last_in_set)
  then have "d (last (label_matches fs)) = X"
    using assms(1) by (auto simp: label_matches_def)
  moreover have "LABEL_NAME \<noteq> MODEL_NAME"
    by (simp add: name_defs)
  ultimately show ?thesis
    using False by (simp add: after_loop_def)
qed

lemma extracted_member:
  "map_of (rev ms) n = Some c \<Longrightarrow> (n, c) \<in> set ms"
  using map_of_SomeD [of "rev ms" n c] by simp

lemma extracted_name:
  "(n, c) \<in> set ms \<Longrightarrow> \<exists>c'. map_of (rev ms) n = Some c'"
proof -
  assume "(n, c) \<in> set ms"
  then have "n \<in> fst ` set (rev ms)" by force
  then have "map_of (rev ms) n \<noteq> None"
    by (simp only: map_of_eq_None_iff not_not)
  then show ?thesis by auto
qed

text \<open>One rule, one member: what the canonical name holds after extraction and loop.\<close>

lemma single_match_value:
  assumes one: "filter (\<lambda>(n, c). P n) ms = [(nm, m)]"
    and old: "\<forall>n. P n \<and> present d0 n \<longrightarrow> d0 n = Some (File m)"
    and cover: "set (map fst ms) \<subseteq> set ns"
  shows "\<forall>n. P n \<and> present (extracted ms d0) n \<longrightarrow> extracted ms d0 n = Some (File m)"
    and "nm \<in> set (listdir ns (extracted ms d0))" and "P nm"
proof -
  have mem: "(nm, m) \<in> set ms" and pnm: "P nm"
    using one filter_eq_ConsD [of "\<lambda>(n, c). P n" ms "(nm, m)" "[]"] by auto
  show "P nm" by (rule pnm)
  have uniq: "c = m" if "(n, c) \<in> set ms" "P n" for n c
  proof -
    from that have "(n, c) \<in> set (filter (\<lambda>(n, c). P n) ms)" by simp
    then show ?thesis by (simp add: one)
  qed
  show "\<forall>n. P n \<and> present (extracted ms d0) n \<longrightarrow> extracted ms d0 n = Some (File m)"
  proof (intro allI impI)
    fix n assume a: "P n \<and> present (extracted ms d0) n"
    show "extracted ms d0 n = Some (File m)"
    proof (cases "map_of (rev ms) n")
      case None
      then have e: "extracted ms d0 n = d0 n"
        by (simp add: extracted_def)
      with a have "P n \<and> present d0 n"
        by (simp add: present_def)
      with old have "d0 n = Some (File m)"
        by blast
      with e show ?thesis
        by simp
    next
      case (Some c)
      then have "(n, c) \<in> set ms"
        by (rule extracted_member)
      moreover have "P n"
        using a by simp
      ultimately have "c = m"
        by (rule uniq)
      then show ?thesis
        using Some by (simp add: extracted_def)
    qed
  qed
  obtain c' where "map_of (rev ms) nm = Some c'"
    using extracted_name [OF mem] by blast
  then have "present (extracted ms d0) nm"
    by (simp add: extracted_def present_def)
  moreover have "nm \<in> set ns"
    using mem cover by force
  ultimately show "nm \<in> set (listdir ns (extracted ms d0))"
    by (simp add: listdir_present)
qed

lemma single_model_after_loop:
  assumes one: "filter (\<lambda>(n, c). is_model n) ms = [(nm, m)]"
    and old: "\<forall>n. is_model n \<and> present d0 n \<longrightarrow> d0 n = Some (File m)"
    and cover: "set (map fst ms) \<subseteq> set ns"
  shows "after_loop (listdir ns (extracted ms d0)) (extracted ms d0) MODEL_NAME = Some (File m)"
proof -
  note s = single_match_value [of is_model ms nm m d0 ns, OF one old cover]
  show ?thesis
  proof (rule after_loop_model_value)
    show "\<forall>n\<in>set (listdir ns (extracted ms d0)). is_model n \<longrightarrow> extracted ms d0 n = Some (File m)"
      using s(1) by (simp add: listdir_present)
    show "extracted ms d0 MODEL_NAME = Some (File m)
          \<or> (\<exists>n\<in>set (listdir ns (extracted ms d0)). is_model n \<and> n \<noteq> MODEL_NAME)"
    proof (cases "nm = MODEL_NAME")
      case True
      then show ?thesis using s by (simp add: listdir_present)
    next
      case False
      then show ?thesis using s(2,3) by blast
    qed
  qed
qed

lemma single_label_after_loop:
  assumes one: "filter (\<lambda>(n, c). is_label n) ms = [(nl, l)]"
    and old: "\<forall>n. is_label n \<and> present d0 n \<longrightarrow> d0 n = Some (File l)"
    and cover: "set (map fst ms) \<subseteq> set ns"
  shows "after_loop (listdir ns (extracted ms d0)) (extracted ms d0) LABEL_NAME = Some (File l)"
proof -
  note s = single_match_value [of is_label ms nl l d0 ns, OF one old cover]
  show ?thesis
  proof (rule after_loop_label_value)
    show "\<forall>n\<in>set (listdir ns (extracted ms d0)). is_label n \<longrightarrow> extracted ms d0 n = Some (File l)"
      using s(1) by (simp add: listdir_present)
    show "extracted ms d0 LABEL_NAME = Some (File l)
          \<or> (\<exists>n\<in>set (listdir ns (extracted ms d0)). is_label n \<and> n \<noteq> LABEL_NAME)"
    proof (cases "nl = LABEL_NAME")
      case True
      then show ?thesis using s by (simp add: listdir_present)
    next
      case False
      then show ?thesis using s(2,3) by blast
    qed
  qed
qed

lemma fresh_zip_no_match:
  "\<forall>n. (is_model n \<or> is_label n) \<longrightarrow> \<not> present (Map.empty(ZIP_NAME \<mapsto> File body)) n"
  using zip_name_no_match by (auto simp: present_def)

text \<open>
  Claim C1, as the code has it. The directory is listed without descending
  into subdirectories, so the claim needs members that are extracted as
  immediate entries. Let the assets directory be empty or missing at the
  start, let the download answer with an archive whose members all have plain
  names (one path component, none of them \<open>model.zip\<close>, the archive being
  read), with exactly one member \<open>(nm, m)\<close> whose name ends in \<open>.tflite\<close> and
  exactly one member \<open>(nl, l)\<close> whose name is a label name, and let the listing
  report every extracted member. Then the run ends normally, whatever the
  order of the listing, and the directory holds \<open>ssd_mobilenet_v1.tflite\<close> with
  the data \<open>m\<close>, \<open>labelmap.txt\<close> with the data \<open>l\<close>, and no \<open>model.zip\<close>.
\<close>

theorem scenario_outputs:
  assumes empty: "makedirs t = Map.empty"
    and resp: "response e = Some body" and zip: "unzip e body = Some (map sound ms)"
    and plain: "\<forall>(n, c)\<in>set ms. plain_name n \<and> n \<noteq> ZIP_NAME"
    and model: "filter (\<lambda>(n, c). is_model n) ms = [(nm, m)]"
    and label: "filter (\<lambda>(n, c). is_label n) ms = [(nl, l)]"
    and cover: "set (map fst ms) \<subseteq> set (order e)"
  shows "\<exists>w. pipeline e t = Inr w
           \<and> assets w MODEL_NAME = Some (File m)
           \<and> assets w LABEL_NAME = Some (File l)
           \<and> assets w ZIP_NAME = None"
proof -
  have pl: "\<forall>(n, c)\<in>set ms. plain_name n"
    using plain by auto
  have fo: "files_only (makedirs t)"
    by (simp add: empty files_only_def)
  let ?d0 = "Map.empty(ZIP_NAME \<mapsto> File body)"
  from pipeline_plain [OF resp zip pl fo] obtain w where
    w: "pipeline e t = Inr w"
    and a: "assets w = (after_loop (listdir (order e) (extracted ms ?d0)) (extracted ms ?d0))
                         (ZIP_NAME := None)"
    by (auto simp: empty)
  have zm: "MODEL_NAME \<noteq> ZIP_NAME" and zl: "LABEL_NAME \<noteq> ZIP_NAME"
    by (simp_all add: name_defs)
  have oldm: "\<forall>n. is_model n \<and> present ?d0 n \<longrightarrow> ?d0 n = Some (File m)"
    using fresh_zip_no_match [of body] by blast
  have oldl: "\<forall>n. is_label n \<and> present ?d0 n \<longrightarrow> ?d0 n = Some (File l)"
    using fresh_zip_no_match [of body] by blast
  have "assets w MODEL_NAME = Some (File m)"
    using single_model_after_loop [OF model oldm cover] zm by (simp add: a)
  moreover have "assets w LABEL_NAME = Some (File l)"
    using single_label_after_loop [OF label oldl cover] zl by (simp add: a)
  ultimately show ?thesis
    using w by (simp add: a)
qed

theorem scenario_outputs_witness:
  "makedirs None = Map.empty
   \<and> final_assets (pipeline scenario_env None) MODEL_NAME = Some (File ''M'')
   \<and> final_assets (pipeline scenario_env None) LABEL_NAME = Some (File ''L'')
   \<and> final_assets (pipeline scenario_env None) ZIP_NAME = None"
proof -
  have h1: "makedirs None = Map.empty"
    by (simp add: makedirs_def)
  have h2: "response scenario_env = Some ''PK-scenario''"
    and h3: "unzip scenario_env ''PK-scenario'' = Some (map sound scenario_members)"
    by (simp_all add: scenario_env_def scenario_members_def)
  have h4: "\<forall>(n, c)\<in>set scenario_members. plain_name n \<and> n \<noteq> ZIP_NAME"
    by (simp add: scenario_members_def plain_name_def name_defs)
  have h5: "filter (\<lambda>(n, c). is_model n) scenario_members = [(''detect.tflite'', ''M'')]"
    and h6: "filter (\<lambda>(n, c). is_label n) scenario_members = [(''labelmap.txt'', ''L'')]"
    by (simp_all add: scenario_members_def str_defs)
  have h7: "set (map fst scenario_members) \<subseteq> set (order scenario_env)"
    by (simp add: scenario_members_def scenario_env_def)
  from scenario_outputs [OF h1 h2 h3 h4 h5 h6 h7] obtain w where
    "pipeline scenario_env None = Inr w" "assets w MODEL_NAME = Some (File ''M'')"
    "assets w LABEL_NAME = Some (File ''L'')" "assets w ZIP_NAME = None"
    by blast
  then show ?thesis
    using h1 by (simp add: final_assets_def final_world_def)
qed

text \<open>
  The claim as written fails for a member stored below a directory of the
  archive: \<open>models/detect.tflite\<close> is the only member whose name ends in
  \<open>.tflite\<close>, it is extracted into the subdirectory \<open>models\<close>, the listing
  of the assets directory shows \<open>models\<close> and not the file, and the run ends
  normally without \<open>ssd_mobilenet_v1.tflite\<close>.
\<close>

theorem nested_member_counterexample:
  "filter (\<lambda>(n, c). is_model n) nested_members = [(''models/detect.tflite'', ''M'')]
   \<and> filter (\<lambda>(n, c). is_label n) nested_members = [(''labelmap.txt'', ''L'')]
   \<and> unzip nested_env ''PK-nested'' = Some (map sound nested_members)
   \<and> exit_status (pipeline nested_env None) = 0
   \<and> final_assets (pipeline nested_env None) MODEL_NAME = None
   \<and> present (final_assets (pipeline nested_env None)) ''models''"
  by (simp add: nested_env_def nested_members_def run_defs str_defs name_defs)

subsection \<open>An archive without a model\<close>

text \<open>
  Claim C5, as the code has it. Let the assets directory hold regular files
  only, none with a name ending in \<open>.tflite\<close> (an empty or missing directory
  is such a directory), and let the download answer with an archive whose
  members all have plain names (one path component, none of them
  \<open>model.zip\<close>), none ending in \<open>.tflite\<close>. Then the run ends normally: the
  loop raises nothing although no entry matches the model rule, nothing checks
  for the missing artifact, and \<open>ssd_mobilenet_v1.tflite\<close> is absent afterwards.
\<close>

theorem no_model_member_no_model_file:
  assumes files: "files_only (makedirs t)"
    and fresh: "\<forall>n. is_model n \<longrightarrow> makedirs t n = None"
    and resp: "response e = Some body" and zip: "unzip e body = Some (map sound ms)"
    and plain: "\<forall>(n, c)\<in>set ms. plain_name n \<and> n \<noteq> ZIP_NAME \<and> \<not> is_model n"
  shows "\<exists>w. pipeline e t = Inr w \<and> assets w MODEL_NAME = None"
proof -
  have pl: "\<forall>(n, c)\<in>set ms. plain_name n"
    using plain by auto
  let ?d0 = "(makedirs t)(ZIP_NAME \<mapsto> File body)"
  let ?d1 = "extracted ms ?d0"
  from pipeline_plain [OF resp zip pl files] obtain w where
    w: "pipeline e t = Inr w"
    and a: "assets w = (after_loop (listdir (order e) ?d1) ?d1)(ZIP_NAME := None)"
    by auto
  have none: "?d1 n = None" if "is_model n" for n
  proof (cases "map_of (rev ms) n")
    case None
    moreover have "n \<noteq> ZIP_NAME"
      using that zip_name_no_match by auto
    ultimately show ?thesis
      using fresh that by (simp add: extracted_def)
  next
    case (Some c)
    then have "(n, c) \<in> set ms"
      by (rule extracted_member)
    then show ?thesis
      using plain that by auto
  qed
  have "after_loop (listdir (order e) ?d1) ?d1 MODEL_NAME = None"
    by (rule after_loop_model_value) (simp_all add: none model_name_is_model)
  moreover have "MODEL_NAME \<noteq> ZIP_NAME"
    by (simp add: name_defs)
  ultimately show ?thesis
    using w by (simp add: a)
qed

theorem no_model_member_no_model_file_witness:
  "files_only (makedirs None)
   \<and> exit_status (pipeline labels_only_env None) = 0
   \<and> final_assets (pipeline labels_only_env None) MODEL_NAME = None"
proof -
  have h1: "files_only (makedirs None)" and h2: "\<forall>n. is_model n \<longrightarrow> makedirs None n = None"
    by (simp_all add: makedirs_def files_only_def)
  have h3: "response labels_only_env = Some ''PK-labels''"
    and h4: "unzip labels_only_env ''PK-labels'' = Some (map sound [(''labelmap.txt'', ''L'')])"
    by (simp_all add: labels_only_env_def)
  have h5: "\<forall>(n, c)\<in>set [(''labelmap.txt'', ''L'')].
              plain_name n \<and> n \<noteq> ZIP_NAME \<and> \<not> is_model n"
    by (simp add: plain_name_def name_defs str_defs)
  from no_model_member_no_model_file [OF h1 h2 h3 h4 h5] obtain w where
    "pipeline labels_only_env None = Inr w" "assets w MODEL_NAME = None"
    by blast
  then show ?thesis
    using h1 by (simp add: final_assets_def final_world_def exit_status_def)
qed

text \<open>
  The claim as written fails when the directory is not fresh: the script
  removes nothing but the archive, so a \<open>ssd_mobilenet_v1.tflite\<close> left by an
  earlier run is still there after a run on an archive without a model. (With
  members stored below directories the run can also fail or leave a directory
  under the canonical name, as for claims C1 and C6.)
\<close>

theorem old_model_file_counterexample:
  "filter (\<lambda>(n, c). is_model n) [(''labelmap.txt'', ''L'')] = []
   \<and> unzip labels_only_env ''PK-labels'' = Some (map sound [(''labelmap.txt'', ''L'')])
   \<and> exit_status (pipeline labels_only_env (Some rerun_world)) = 0
   \<and> final_assets (pipeline labels_only_env (Some rerun_world)) MODEL_NAME
       = Some (File ''OLD-M'')"
  by (simp add: labels_only_env_def rerun_world_def run_defs str_defs name_defs)

subsection \<open>Running the script again\<close>

lemma files_only_after_loop: "files_only d \<Longrightarrow> files_only (after_loop fs d)"
  by (simp add: files_only_def after_loop_def)

lemma after_loop_other_name:
  assumes "n \<noteq> MODEL_NAME" and "n \<noteq> LABEL_NAME"
  shows "after_loop fs d n = (if n \<in> set fs \<and> (is_model n \<or> is_label n) then None else d n)"
  using assms by (simp add: after_loop_def)

text \<open>
  Claim C6, as the code has it. Under the conditions of claim C1 (a directory
  that is empty or missing at the start, members with plain names, exactly
  one model member and one label member, listings that report every
  extracted member) a second run on the directory that the first run left,
  with the same download and with a listing in any order, ends normally and
  leaves the very same directory: every name holds what it held after the
  first run, so nothing is duplicated, and the two canonical files hold the
  data of the two members again.
\<close>

theorem second_run_same_directory:
  assumes empty: "makedirs t = Map.empty"
    and resp: "response e = Some body" and zip: "unzip e body = Some (map sound ms)"
    and plain: "\<forall>(n, c)\<in>set ms. plain_name n \<and> n \<noteq> ZIP_NAME"
    and model: "filter (\<lambda>(n, c). is_model n) ms = [(nm, m)]"
    and label: "filter (\<lambda>(n, c). is_label n) ms = [(nl, l)]"
    and cover: "set (map fst ms) \<subseteq> set (order e)"
    and cover2: "set (map fst ms) \<subseteq> set ns2"
  shows "\<exists>w1 w2. pipeline e t = Inr w1
           \<and> pipeline (e\<lparr>order := ns2\<rparr>) (Some (assets w1)) = Inr w2
           \<and> assets w2 = assets w1
           \<and> assets w2 MODEL_NAME = Some (File m)
           \<and> assets w2 LABEL_NAME = Some (File l)"
proof -
  have pl: "\<forall>(n, c)\<in>set ms. plain_name n"
    using plain by auto
  have zm: "MODEL_NAME \<noteq> ZIP_NAME" and zl: "LABEL_NAME \<noteq> ZIP_NAME"
    and ml: "MODEL_NAME \<noteq> LABEL_NAME"
    by (simp_all add: name_defs)
  let ?d0 = "Map.empty(ZIP_NAME \<mapsto> File body)"
  let ?d1 = "extracted ms ?d0"
  let ?fs1 = "listdir (order e) ?d1"
  let ?A1 = "(after_loop ?fs1 ?d1)(ZIP_NAME := None)"
  have fo: "files_only (makedirs t)"
    by (simp add: empty files_only_def)
  from pipeline_plain [OF resp zip pl fo] obtain w1 where
    w1: "pipeline e t = Inr w1" and a1: "assets w1 = ?A1"
    by (auto simp: empty)
  have oldm: "\<forall>n. is_model n \<and> present ?d0 n \<longrightarrow> ?d0 n = Some (File m)"
    using fresh_zip_no_match [of body] by blast
  have oldl: "\<forall>n. is_label n \<and> present ?d0 n \<longrightarrow> ?d0 n = Some (File l)"
    using fresh_zip_no_match [of body] by blast
  have m1: "after_loop ?fs1 ?d1 MODEL_NAME = Some (File m)"
    by (rule single_model_after_loop [OF model oldm cover])
  have l1: "after_loop ?fs1 ?d1 LABEL_NAME = Some (File l)"
    by (rule single_label_after_loop [OF label oldl cover])
  note sm = single_match_value(1) [of is_model ms nm m ?d0 "order e", OF model oldm cover]
  note sl = single_match_value(1) [of is_label ms nl l ?d0 "order e", OF label oldl cover]

  let ?e2 = "e\<lparr>order := ns2\<rparr>"
  let ?c0 = "?A1(ZIP_NAME \<mapsto> File body)"
  let ?c1 = "extracted ms ?c0"
  let ?fs2 = "listdir ns2 ?c1"
  let ?A2 = "(after_loop ?fs2 ?c1)(ZIP_NAME := None)"
  have fo2: "files_only (makedirs (Some (assets w1)))"
    using files_only_after_loop [OF files_only_extracted, of ?d0 ?fs1 ms]
    by (simp add: makedirs_def a1 files_only_def)
  have resp2: "response ?e2 = Some body" and zip2: "unzip ?e2 body = Some (map sound ms)"
    using resp zip by simp_all
  from pipeline_plain [OF resp2 zip2 pl fo2] obtain w2 where
    w2: "pipeline ?e2 (Some (assets w1)) = Inr w2" and a2: "assets w2 = ?A2"
    by (auto simp: makedirs_def a1)
  have oldm2: "\<forall>n. is_model n \<and> present ?c0 n \<longrightarrow> ?c0 n = Some (File m)"
  proof (intro allI impI)
    fix n assume a: "is_model n \<and> present ?c0 n"
    then have nz: "n \<noteq> ZIP_NAME" and nl: "n \<noteq> LABEL_NAME"
      using zip_name_no_match label_name_is_label model_not_label by auto
    show "?c0 n = Some (File m)"
    proof (cases "n = MODEL_NAME")
      case True
      then show ?thesis using m1 zm by simp
    next
      case False
      have "present (after_loop ?fs1 ?d1) n"
        using a nz by (simp add: present_def)
      then have "present ?d1 n"
        using False nl by (simp add: after_loop_other_name present_def split: if_splits)
      with a sm have "?d1 n = Some (File m)"
        by blast
      moreover have "after_loop ?fs1 ?d1 n = ?d1 n"
        using \<open>present (after_loop ?fs1 ?d1) n\<close> False nl
        by (auto simp: after_loop_other_name present_def split: if_splits)
      ultimately show ?thesis
        using nz by simp
    qed
  qed
  have oldl2: "\<forall>n. is_label n \<and> present ?c0 n \<longrightarrow> ?c0 n = Some (File l)"
  proof (intro allI impI)
    fix n assume a: "is_label n \<and> present ?c0 n"
    then have nz: "n \<noteq> ZIP_NAME" and nm: "n \<noteq> MODEL_NAME"
      using zip_name_no_match model_name_is_model model_not_label by auto
    show "?c0 n = Some (File l)"
    proof (cases "n = LABEL_NAME")
      case True
      then show ?thesis using l1 zl by simp
    next
      case False
      have "present (after_loop ?fs1 ?d1) n"
        using a nz by (simp add: present_def)
      then have "present ?d1 n"
        using False nm by (simp add: after_loop_other_name present_def split: if_splits)
      with a sl have "?d1 n = Some (File l)"
        by blast
      moreover have "after_loop ?fs1 ?d1 n = ?d1 n"
        using \<open>present (after_loop ?fs1 ?d1) n\<close> False nm
        by (auto simp: after_loop_other_name present_def split: if_splits)
      ultimately show ?thesis
        using nz by simp
    qed
  qed
  have m2: "after_loop ?fs2 ?c1 MODEL_NAME = Some (File m)"
    by (rule single_model_after_loop [OF model oldm2 cover2])
  have l2: "after_loop ?fs2 ?c1 LABEL_NAME = Some (File l)"
    by (rule single_label_after_loop [OF label oldl2 cover2])
  have same: "?A2 n = ?A1 n" for n
  proof -
    consider "n = ZIP_NAME" | "n = MODEL_NAME" | "n = LABEL_NAME"
      | "n \<noteq> ZIP_NAME" "n \<noteq> MODEL_NAME" "n \<noteq> LABEL_NAME"
      by blast
    then show ?thesis
    proof cases
      case 1
      then show ?thesis by simp
    next
      case 2
      then show ?thesis using m1 m2 zm by simp
    next
      case 3
      then show ?thesis using l1 l2 zl by simp
    next
      case 4
      show ?thesis
      proof (cases "map_of (rev ms) n")
        case None
        then have "?d1 n = None"
          using 4 by (simp add: extracted_def)
        then have x: "after_loop ?fs1 ?d1 n = None"
          using 4 by (simp add: after_loop_other_name)
        then have "?c1 n = None"
          using None 4 by (simp add: extracted_def)
        then have "after_loop ?fs2 ?c1 n = None"
          using 4 by (simp add: after_loop_other_name)
        with x show ?thesis
          using 4 by simp
      next
        case (Some c)
        then have v1: "?d1 n = Some (File c)" and v2: "?c1 n = Some (File c)"
          by (simp_all add: extracted_def)
        have "(n, c) \<in> set ms"
          using Some by (rule extracted_member)
        then have "n \<in> set (map fst ms)"
          by force
        then have "n \<in> set (order e)" and "n \<in> set ns2"
          using cover cover2 by auto
        then have "n \<in> set ?fs1" and "n \<in> set ?fs2"
          using v1 v2 by (simp_all add: listdir_present present_def)
        then have "after_loop ?fs1 ?d1 n = after_loop ?fs2 ?c1 n"
          using 4 v1 v2 by (simp add: after_loop_other_name)
        then show ?thesis
          using 4 by simp
      qed
    qed
  qed
  have "assets w2 = assets w1"
    unfolding a1 a2 by (rule ext) (rule same)
  moreover have "assets w2 MODEL_NAME = Some (File m)" and "assets w2 LABEL_NAME = Some (File l)"
    using m2 l2 zm zl by (simp_all add: a2)
  ultimately show ?thesis
    using w1 w2 by blast
qed

theorem second_run_same_directory_witness:
  "makedirs None = Map.empty
   \<and> exit_status (pipeline scenario_env None) = 0
   \<and> exit_status (pipeline (scenario_env\<lparr>order := second_order\<rparr>)
        (Some (final_assets (pipeline scenario_env None)))) = 0
   \<and> final_assets (pipeline (scenario_env\<lparr>order := second_order\<rparr>)
        (Some (final_assets (pipeline scenario_env None))))
       = final_assets (pipeline scenario_env None)
   \<and> final_assets (pipeline (scenario_env\<lparr>order := second_order\<rparr>)
        (Some (final_assets (pipeline scenario_env None)))) MODEL_NAME = Some (File ''M'')"
proof -
  have h1: "makedirs None = Map.empty"
    by (simp add: makedirs_def)
  have h2: "response scenario_env = Some ''PK-scenario''"
    and h3: "unzip scenario_env ''PK-scenario'' = Some (map sound scenario_members)"
    by (simp_all add: scenario_env_def)
  have h4: "\<forall>(n, c)\<in>set scenario_members. plain_name n \<and> n \<noteq> ZIP_NAME"
    by (simp add: scenario_members_def plain_name_def name_defs)
  have h5: "filter (\<lambda>(n, c). is_model n) scenario_members = [(''detect.tflite'', ''M'')]"
    and h6: "filter (\<lambda>(n, c). is_label n) scenario_members = [(''labelmap.txt'', ''L'')]"
    by (simp_all add: scenario_members_def str_defs)
  have h7: "set (map fst scenario_members) \<subseteq> set (order scenario_env)"
    and h8: "set (map fst scenario_members) \<subseteq> set second_order"
    by (simp_all add: scenario_members_def scenario_env_def second_order_def)
  from second_run_same_directory [OF h1 h2 h3 h4 h5 h6 h7 h8] obtain w1 w2 where
    r1: "pipeline scenario_env None = Inr w1"
    and r2: "pipeline (scenario_env\<lparr>order := second_order\<rparr>) (Some (assets w1)) = Inr w2"
    and eq: "assets w2 = assets w1" and m: "assets w2 MODEL_NAME = Some (File ''M'')"
    by blast
  have f1: "final_assets (pipeline scenario_env None) = assets w1"
    by (simp add: r1 final_assets_def final_world_def)
  show ?thesis
    unfolding f1 using h1 r1 r2 eq m
    by (simp add: final_assets_def final_world_def exit_status_def)
qed

text \<open>
  The claim as written fails for a member stored below a directory of the
  archive. The archive below has one member whose name ends in \<open>.tflite\<close>
  and one label member. The first run renames the extracted directory
  \<open>a.tflite\<close> to \<open>ssd_mobilenet_v1.tflite\<close>; the second run extracts
  \<open>a.tflite\<close> again and moves it into that directory, next to the first
  copy. Both runs end normally, and the canonical entry differs after them.
\<close>

theorem second_run_counterexample:
  "filter (\<lambda>(n, c). is_model n) twice_nested_members = [(''a.tflite/b.tflite'', ''M'')]
   \<and> filter (\<lambda>(n, c). is_label n) twice_nested_members = [(''labelmap.txt'', ''L'')]
   \<and> exit_status (pipeline twice_nested_env None) = 0
   \<and> exit_status (pipeline twice_nested_env
        (Some (final_assets (pipeline twice_nested_env None)))) = 0
   \<and> \<not> present (subdir (final_assets (pipeline twice_nested_env None)) MODEL_NAME) ''a.tflite''
   \<and> present (subdir (final_assets (pipeline twice_nested_env
        (Some (final_assets (pipeline twice_nested_env None))))) MODEL_NAME) ''a.tflite''"
  by (simp add: twice_nested_env_def twice_nested_members_def run_defs str_defs name_defs
        subdir_def)

subsection \<open>A download that is not a valid archive\<close>










subsection \<open>Exit status and completion line\<close>

lemma done_not_step_line:
  "DONE \<noteq> ''Downloading SSD MobileNet V1 TFLite model...''"
  "DONE \<noteq> ''Download complete.''"
  "DONE \<noteq> ''Extracting model files...''"
  "DONE \<noteq> ''Model saved as: '' @ x"
  "DONE \<noteq> ''Labels saved as: '' @ x"
  by (simp_all add: DONE_def)

lemma download_out:
  "DONE \<notin> set (out w) \<Longrightarrow> DONE \<notin> set (out (final_world (download e w)))"
  by (auto simp: download_def final_world_def print_line_def Let_def done_not_step_line
        split: sum.splits)

lemma extract_files_out:
  "DONE \<notin> set (out w) \<Longrightarrow> DONE \<notin> set (out (final_world (extract_files e w)))"
  by (auto simp: extract_files_def final_world_def print_line_def Let_def done_not_step_line
        split: sum.splits prod.splits)

lemma rename_entry_out:
  "DONE \<notin> set (out w) \<Longrightarrow> DONE \<notin> set (out (final_world (rename_entry e f w)))"
  by (auto simp: rename_entry_def final_world_def print_line_def DONE_def
        split: sum.splits)

lemma rename_loop_out:
  "DONE \<notin> set (out w) \<Longrightarrow> DONE \<notin> set (out (final_world (rename_loop e fs w)))"
proof (induction fs arbitrary: w)
  case Nil
  then show ?case by (simp add: final_world_def)
next
  case (Cons f fs)
  show ?case
  proof (cases "rename_entry e f w")
    case (Inl x)
    then show ?thesis
      using rename_entry_out [OF Cons.prems, of e f] by simp
  next
    case (Inr w')
    then have "DONE \<notin> set (out w')"
      using rename_entry_out [OF Cons.prems, of e f] by (simp add: final_world_def)
    then show ?thesis
      using Inr Cons.IH [of w'] by simp
  qed
qed

lemma rename_files_out:
  "DONE \<notin> set (out w) \<Longrightarrow> DONE \<notin> set (out (final_world (rename_files e w)))"
  by (simp add: rename_files_def rename_loop_out)

lemma cleanup_out:
  "cleanup w = Inl x \<Longrightarrow> snd x = w"
  "cleanup w = Inr w' \<Longrightarrow> out w' = out w @ [DONE]"
  by (auto simp: cleanup_def print_line_def split: sum.splits)

text \<open>
  Claim C3, as the code has it. The run ends with the error of the first step
  that fails, and with that error only if a step fails: exit status 1 means
  that the download, the extraction, the renaming or the cleanup raised, and
  then the completion line has not been printed. Exit status 0 means that all
  four steps ended normally, and then the completion line is the last line
  printed. Nothing in the script looks whether the canonical files exist.
\<close>

theorem exit_status_follows_steps:
  "(pipeline e t = Inl x \<longleftrightarrow>
      download e (start t) = Inl x
      \<or> (\<exists>w1. download e (start t) = Inr w1
            \<and> (extract_files e w1 = Inl x
               \<or> (\<exists>w2. extract_files e w1 = Inr w2
                     \<and> (rename_files e w2 = Inl x
                        \<or> (\<exists>w3. rename_files e w2 = Inr w3 \<and> cleanup w3 = Inl x))))))
   \<and> (exit_status (pipeline e t) = 1 \<longleftrightarrow> (\<exists>y. pipeline e t = Inl y))
   \<and> (exit_status (pipeline e t) = 0 \<longleftrightarrow>
        (\<exists>w1 w2 w3 w4. download e (start t) = Inr w1 \<and> extract_files e w1 = Inr w2
           \<and> rename_files e w2 = Inr w3 \<and> cleanup w3 = Inr w4))
   \<and> (exit_status (pipeline e t) = 0 \<longrightarrow> last (out (final_world (pipeline e t))) = DONE)
   \<and> (exit_status (pipeline e t) = 1 \<longrightarrow> DONE \<notin> set (out (final_world (pipeline e t))))"
proof -
  have s0: "DONE \<notin> set (out (start t))"
    by (simp add: start_def)
  show ?thesis
  proof (cases "download e (start t)")
    case (Inl y)
    then show ?thesis
      using download_out [OF s0, of e]
      by (auto simp: pipeline_def and_then_def exit_status_def final_world_def)
  next
    case d: (Inr w1)
    then have o1: "DONE \<notin> set (out w1)"
      using download_out [OF s0, of e] by (simp add: final_world_def)
    show ?thesis
    proof (cases "extract_files e w1")
      case (Inl y)
      then show ?thesis
        using d extract_files_out [OF o1, of e]
        by (auto simp: pipeline_def and_then_def exit_status_def final_world_def)
    next
      case x: (Inr w2)
      then have o2: "DONE \<notin> set (out w2)"
        using extract_files_out [OF o1, of e] by (simp add: final_world_def)
      show ?thesis
      proof (cases "rename_files e w2")
        case (Inl y)
        then show ?thesis
          using d x rename_files_out [OF o2, of e]
          by (auto simp: pipeline_def and_then_def exit_status_def final_world_def)
      next
        case r: (Inr w3)
        then have o3: "DONE \<notin> set (out w3)"
          using rename_files_out [OF o2, of e] by (simp add: final_world_def)
        show ?thesis
        proof (cases "cleanup w3")
          case (Inl y)
          then show ?thesis
            using d x r o3 cleanup_out(1) [of w3 y]
            by (auto simp: pipeline_def and_then_def exit_status_def final_world_def
                  split: prod.splits)
        next
          case (Inr w4)
          then show ?thesis
            using d x r cleanup_out(2) [of w3 w4]
            by (auto simp: pipeline_def and_then_def exit_status_def final_world_def)
        qed
      qed
    qed
  qed
qed

theorem exit_status_follows_steps_witness:
  "exit_status (pipeline scenario_env None) = 0
   \<and> last (out (final_world (pipeline scenario_env None))) = DONE
   \<and> exit_status (pipeline (scenario_env\<lparr>response := None\<rparr>) None) = 1
   \<and> DONE \<notin> set (out (final_world (pipeline (scenario_env\<lparr>response := None\<rparr>) None)))"
proof -
  have a: "exit_status (pipeline scenario_env None) = 0"
    by (simp add: scenario_env_def scenario_members_def run_defs str_defs name_defs)
  have b: "exit_status (pipeline (scenario_env\<lparr>response := None\<rparr>) None) = 1"
    by (simp add: scenario_env_def run_defs name_defs)
  from exit_status_follows_steps [of scenario_env None] a
  have "last (out (final_world (pipeline scenario_env None))) = DONE"
    by blast
  moreover from exit_status_follows_steps [of "scenario_env\<lparr>response := None\<rparr>" None] b
  have "DONE \<notin> set (out (final_world (pipeline (scenario_env\<lparr>response := None\<rparr>) None)))"
    by blast
  ultimately show ?thesis
    using a b by simp
qed

text \<open>
  The claim as written fails in its second half: an archive that holds only
  \<open>README.md\<close> gives a run with exit status 0 and the completion line,
  although neither \<open>ssd_mobilenet_v1.tflite\<close> nor \<open>labelmap.txt\<close> exists
  afterwards.
\<close>

theorem success_without_outputs_counterexample:
  "exit_status (pipeline readme_env None) = 0
   \<and> last (out (final_world (pipeline readme_env None))) = DONE
   \<and> final_assets (pipeline readme_env None) MODEL_NAME = None
   \<and> final_assets (pipeline readme_env None) LABEL_NAME = None
   \<and> final_assets (pipeline readme_env None) ''README.md'' = Some (File ''R'')"
  by (simp add: readme_env_def run_defs str_defs name_defs)

end
